theory Spec2Isabelle
  imports Main "HOL-Library.Sublist"
begin

section \<open>Python string primitives used by colour\_filter.py\<close>

text \<open>
  Python strings are modelled as \<open>string\<close>; a character stands for the code point with
  the same number, so the model covers text whose code points are below 256.
\<close>

definition ESC :: char where
  "ESC = CHR 0x1B"

definition NL :: char where
  "NL = CHR 0x0A"

datatype error = NameError

text \<open>
  \<open>str.find(sub, start)\<close>: the lowest index at or after \<open>start\<close> where \<open>sub\<close> occurs,
  and the sentinel \<open>-1\<close> when there is none. A negative \<open>start\<close> counts from the end.
\<close>

fun find_sub :: "string \<Rightarrow> string \<Rightarrow> nat \<Rightarrow> int" where
  "find_sub sub [] k = (if sub = [] then int k else -1)"
| "find_sub sub (c # cs) k =
     (if take (length sub) (c # cs) = sub then int k else find_sub sub cs (Suc k))"

definition str_find :: "string \<Rightarrow> string \<Rightarrow> int \<Rightarrow> int" where
  "str_find s sub start =
     (let n = int (length s);
          st = (if start < 0 then max 0 (start + n) else start)
      in if n < st then -1 else find_sub sub (drop (nat st) s) (nat st))"

text \<open>
  \<open>str.isspace\<close> on code points below 256: the characters \<open>str.strip()\<close> removes
  and \<open>int()\<close> skips around a literal.
\<close>

definition isspace :: "char \<Rightarrow> bool" where
  "isspace c = ((of_char c :: nat) \<in> {9, 10, 11, 12, 13, 28, 29, 30, 31, 32, 133, 160})"

definition strip :: "string \<Rightarrow> string" where
  "strip s = rev (dropWhile isspace (rev (dropWhile isspace s)))"

text \<open>The slice \<open>s[:k]\<close>: a negative \<open>k\<close> counts from the end and is clipped at 0.\<close>

definition slice_to :: "string \<Rightarrow> int \<Rightarrow> string" where
  "slice_to s k = take (nat (if k < 0 then k + int (length s) else k)) s"

text \<open>\<open>s.rsplit(' ', 1)\<close>: one split at the last space character, if there is one.\<close>

definition rsplit1 :: "string \<Rightarrow> string list" where
  "rsplit1 s =
     (if CHR '' '' \<in> set s
      then [rev (tl (dropWhile (\<lambda>c. c \<noteq> CHR '' '') (rev s))),
            rev (takeWhile (\<lambda>c. c \<noteq> CHR '' '') (rev s))]
      else [s])"

text \<open>\<open>sep.join(xs)\<close>.\<close>

fun join :: "string \<Rightarrow> string list \<Rightarrow> string" where
  "join sep [] = []"
| "join sep [x] = x"
| "join sep (x # y # ys) = x @ sep @ join sep (y # ys)"

text \<open>Digits of a natural number, most significant first, as \<open>%d\<close> and \<open>%x\<close> print them.\<close>

fun dec_digits :: "nat \<Rightarrow> string" where
  "dec_digits n =
     (if n < 10 then [''0123456789'' ! n]
      else dec_digits (n div 10) @ [''0123456789'' ! (n mod 10)])"

fun hex_digits :: "nat \<Rightarrow> string" where
  "hex_digits n =
     (if n < 16 then [''0123456789abcdef'' ! n]
      else hex_digits (n div 16) @ [''0123456789abcdef'' ! (n mod 16)])"

declare dec_digits.simps [simp del]
declare hex_digits.simps [simp del]

text \<open>\<open>'%d' % n\<close>, \<open>'%-3d' % n\<close>, \<open>'%016x' % n\<close> (for \<open>n \<ge> 0\<close>) and \<open>hex(n)\<close>.\<close>

definition format_d :: "int \<Rightarrow> string" where
  "format_d n = (if n < 0 then CHR ''-'' # dec_digits (nat (- n)) else dec_digits (nat n))"

definition format_d_left3 :: "int \<Rightarrow> string" where
  "format_d_left3 n = format_d n @ replicate (3 - length (format_d n)) CHR '' ''"

definition format_016x :: "nat \<Rightarrow> string" where
  "format_016x n = replicate (16 - length (hex_digits n)) CHR ''0'' @ hex_digits n"

definition hex :: "int \<Rightarrow> string" where
  "hex n = (if n < 0 then ''-0x'' @ hex_digits (nat (- n)) else ''0x'' @ hex_digits (nat n))"

text \<open>
  \<open>int(s)\<close> for a string: surrounding whitespace is skipped, one sign is allowed, then
  decimal digits, where single underscores may stand between digits. \<open>None\<close> is the
  \<open>ValueError\<close> of the source. The interpreter's limit on the number of digits of a
  literal (another \<open>ValueError\<close>, in recent versions) is not modelled.
\<close>

definition isdigit :: "char \<Rightarrow> bool" where
  "isdigit c = (48 \<le> (of_char c :: nat) \<and> (of_char c :: nat) \<le> 57)"

fun int_digits :: "bool \<Rightarrow> string \<Rightarrow> nat \<Rightarrow> nat option" where
  "int_digits prev [] acc = (if prev then Some acc else None)"
| "int_digits prev (c # cs) acc =
     (if isdigit c then int_digits True cs (10 * acc + (of_char c - 48))
      else if c = CHR ''_'' \<and> prev then int_digits False cs acc
      else None)"

definition py_int :: "string \<Rightarrow> int option" where
  "py_int s =
     (case strip s of
        [] \<Rightarrow> None
      | c # cs \<Rightarrow>
          if c = CHR ''-'' then map_option (\<lambda>n. - int n) (int_digits False cs 0)
          else if c = CHR ''+'' then map_option int (int_digits False cs 0)
          else map_option int (int_digits False (c # cs) 0))"

subsection \<open>Where find reports a hit\<close>

text \<open>
  A hit of \<open>find\<close> lies at or after the start and inside the string, and the character
  there is the one sought. The loop of \<open>FrameColorizer.length\<close> terminates by these
  facts.
\<close>

lemma find_sub_range:
  "find_sub sub cs k \<noteq> -1 \<Longrightarrow>
     int k \<le> find_sub sub cs k \<and> find_sub sub cs k + int (length sub) \<le> int (k + length cs)"
proof (induction cs arbitrary: k)
  case Nil
  then show ?case by (simp split: if_splits)
next
  case (Cons c cs)
  show ?case
  proof (cases "take (length sub) (c # cs) = sub")
    case True
    have "length (take (length sub) (c # cs)) = length sub"
      by (simp only: True)
    then have "length sub \<le> length (c # cs)"
      by simp
    with True show ?thesis by simp
  next
    case False
    with Cons.prems have "find_sub sub cs (Suc k) \<noteq> -1" by simp
    from Cons.IH [OF this] False show ?thesis by simp
  qed
qed

lemma find_sub_hit:
  "find_sub sub cs k \<noteq> -1 \<Longrightarrow>
     take (length sub) (drop (nat (find_sub sub cs k) - k) cs) = sub"
proof (induction cs arbitrary: k)
  case Nil
  then show ?case by (simp split: if_splits)
next
  case (Cons c cs)
  show ?case
  proof (cases "take (length sub) (c # cs) = sub")
    case True
    then show ?thesis by simp
  next
    case False
    with Cons.prems have ne: "find_sub sub cs (Suc k) \<noteq> -1" by simp
    from find_sub_range [OF ne] have "int (Suc k) \<le> find_sub sub cs (Suc k)" by simp
    then have "nat (find_sub sub cs (Suc k)) - k = Suc (nat (find_sub sub cs (Suc k)) - Suc k)"
      by linarith
    with Cons.IH [OF ne] False show ?thesis by simp
  qed
qed

lemma str_find_char_range:
  assumes "str_find s [c] start \<noteq> -1"
  shows "0 \<le> str_find s [c] start" and "start \<le> str_find s [c] start"
    and "str_find s [c] start < int (length s)"
proof -
  let ?n = "int (length s)"
  let ?st = "if start < 0 then max 0 (start + ?n) else start"
  from assms have le: "?st \<le> ?n"
    by (auto simp: str_find_def Let_def split: if_splits)
  then have eq: "str_find s [c] start = find_sub [c] (drop (nat ?st) s) (nat ?st)"
    by (simp add: str_find_def Let_def)
  with assms have "find_sub [c] (drop (nat ?st) s) (nat ?st) \<noteq> -1" by simp
  from find_sub_range [OF this] eq le
  have r: "int (nat ?st) \<le> str_find s [c] start"
    "str_find s [c] start + 1 \<le> int (nat ?st + (length s - nat ?st))"
    by simp_all
  from r(1) show "0 \<le> str_find s [c] start" by linarith
  from r(1) show "start \<le> str_find s [c] start" by (simp split: if_splits)
  from r(2) le show "str_find s [c] start < int (length s)" by (simp split: if_splits)
qed

lemma find_sub_char_hit:
  "find_sub [c] cs k \<noteq> -1 \<Longrightarrow> cs ! (nat (find_sub [c] cs k) - k) = c"
proof (induction cs arbitrary: k)
  case Nil
  then show ?case by simp
next
  case (Cons d cs)
  show ?case
  proof (cases "d = c")
    case True
    then show ?thesis by simp
  next
    case False
    with Cons.prems have ne: "find_sub [c] cs (Suc k) \<noteq> -1" by simp
    from find_sub_range [OF ne] have "int (Suc k) \<le> find_sub [c] cs (Suc k)" by simp
    then have "nat (find_sub [c] cs (Suc k)) - k = Suc (nat (find_sub [c] cs (Suc k)) - Suc k)"
      by linarith
    with Cons.IH [OF ne] False show ?thesis by simp
  qed
qed

lemma str_find_char_hit:
  assumes "str_find s [c] start \<noteq> -1"
  shows "s ! nat (str_find s [c] start) = c"
proof -
  define st where "st = nat (if start < 0 then max 0 (start + int (length s)) else start)"
  define r where "r = find_sub [c] (drop st s) st"
  from assms have le: "st \<le> length s"
    by (auto simp: str_find_def Let_def st_def split: if_splits)
  from assms have eq: "str_find s [c] start = r"
    by (auto simp: str_find_def Let_def st_def r_def split: if_splits)
  with assms have ne: "find_sub [c] (drop st s) st \<noteq> -1" by (simp add: r_def)
  from find_sub_range [OF ne] have ge: "int st \<le> r" by (simp add: r_def)
  from str_find_char_range(3) [OF assms] eq have lt: "r < int (length s)" by simp
  from find_sub_char_hit [OF ne] have "drop st s ! (nat r - st) = c" by (simp only: r_def)
  moreover from ge lt le have "st + (nat r - st) = nat r" "st + (nat r - st) < length s" by linarith+
  ultimately have "s ! nat r = c"
    by (metis nth_drop le)
  with eq show ?thesis by simp
qed

lemma length_loop_step:
  assumes b: "str_find s [ESC] start \<noteq> -1"
    and e: "str_find s ''m'' (str_find s [ESC] start) \<noteq> -1"
  shows "str_find s [ESC] start < str_find s ''m'' (str_find s [ESC] start)"
    and "start < str_find s ''m'' (str_find s [ESC] start)"
    and "str_find s ''m'' (str_find s [ESC] start) < int (length s)"
proof -
  let ?b = "str_find s [ESC] start"
  let ?e = "str_find s ''m'' ?b"
  have "s ! nat ?b = ESC" by (rule str_find_char_hit [OF b])
  moreover have "s ! nat ?e = CHR ''m''" by (rule str_find_char_hit [OF e])
  ultimately have "nat ?b \<noteq> nat ?e" by (auto simp: ESC_def)
  moreover have "?b \<le> ?e" by (rule str_find_char_range(2) [OF e])
  ultimately show "?b < ?e" by linarith
  moreover have "start \<le> ?b" by (rule str_find_char_range(2) [OF b])
  ultimately show "start < ?e" by linarith
  show "?e < int (length s)" by (rule str_find_char_range(3) [OF e])
qed

section \<open>FrameColorizer.length\<close>

text \<open>
  The loop of \<open>FrameColorizer.length\<close>. When no \<open>m\<close> follows an escape character the
  source evaluates \<open>len(s)\<close>, and no name \<open>s\<close> is bound in the function or the module:
  the call raises \<open>NameError\<close>.
\<close>

function length_loop :: "string \<Rightarrow> int \<Rightarrow> int \<Rightarrow> error + int" where
  "length_loop colored_string start term_seq_len =
     (let begin_ix = str_find colored_string [ESC] start in
      if begin_ix = -1 then Inr (int (length colored_string) - term_seq_len)
      else
        let end_ix = str_find colored_string ''m'' begin_ix in
        if end_ix = -1 then Inl NameError
        else length_loop colored_string end_ix (term_seq_len + (end_ix - begin_ix + 1)))"
  by pat_completeness auto

termination
proof (relation "measure (\<lambda>(cs, start, acc). nat (int (length cs) - start))")
  show "wf (measure (\<lambda>(cs, start, acc). nat (int (length cs) - start)))" by simp
next
  fix colored_string :: string and start term_seq_len x xa :: int
  assume "x = str_find colored_string [ESC] start" "x \<noteq> -1"
    "xa = str_find colored_string ''m'' x" "xa \<noteq> -1"
  then show "((colored_string, xa, term_seq_len + (xa - x + 1)), colored_string, start, term_seq_len)
      \<in> measure (\<lambda>(cs, start, acc). nat (int (length cs) - start))"
    using length_loop_step(2,3) [of colored_string start] by simp
qed

declare length_loop.simps [simp del]

definition length' :: "string \<Rightarrow> error + int" where
  "length' colored_string = length_loop colored_string 0 0"

section \<open>The host debugger, as the decorator sees it\<close>

text \<open>
  What gdb supplies is taken as data. A symbol of a block carries \<open>str(sym)\<close>, its
  \<open>is_argument\<close> flag and the printed form \<open>str(sym.value(frame))\<close> of its value. A
  block has its \<open>function\<close> (or \<open>None\<close>), its \<open>superblock\<close> (or \<open>None\<close>) and the
  symbols its iteration yields. \<open>Frame.block()\<close> returns a block or raises
  \<open>RuntimeError\<close>.
\<close>

record symbol =
  sym_str :: string
  is_argument :: bool
  value_str :: string

datatype block = Block (block_function: "string option") (superblock: "block option")
  (block_symbols: "symbol list")

datatype block_result = RuntimeError | Returns block

text \<open>\<open>FrameDecorator.function()\<close> gives a name or, for an unknown function, its address.\<close>

datatype func = FuncStr string | FuncInt nat

record Frame =
  frame_address :: nat
  frame_function :: func
  frame_filename :: "string option"
  frame_line :: "int option"
  frame_block :: block_result

text \<open>
  \<open>get_parameter('print address')\<close> and \<open>gdb.execute(command, False, True)\<close>, which
  returns the text the command prints.
\<close>

record gdb =
  print_address :: bool
  execute :: "string \<Rightarrow> string"

section \<open>FrameColorizer\<close>

definition SCREEN_WIDTH :: int where
  "SCREEN_WIDTH = 160"

record FrameColorizer =
  self_frame :: Frame
  self_depth :: nat

definition address :: "FrameColorizer \<Rightarrow> string" where
  "address self =
     ESC # ''[1;30m0x'' @ format_016x (frame_address (self_frame self)) @ ESC # ''[0m''"

definition depth :: "FrameColorizer \<Rightarrow> string" where
  "depth self = ESC # ''[1;37m#'' @ format_d_left3 (int (self_depth self)) @ ESC # ''[0m''"

definition filename :: "FrameColorizer \<Rightarrow> string" where
  "filename self =
     ESC # ''[0;36m''
       @ (case frame_filename (self_frame self) of None \<Rightarrow> ''None'' | Some name \<Rightarrow> name)
       @ ESC # ''[0m''"

text \<open>The \<open>while\<close> loop of \<open>frame_args\<close>: climb to the nearest block that has a function.\<close>

fun nearest_function_block :: "block option \<Rightarrow> block option" where
  "nearest_function_block None = None"
| "nearest_function_block (Some (Block f up syms)) =
     (if f \<noteq> None then Some (Block f up syms) else nearest_function_block up)"

text \<open>The \<open>for\<close> loop of \<open>frame_args\<close>, with the list \<open>args\<close> it appends to.\<close>

fun collect_args :: "symbol list \<Rightarrow> string list \<Rightarrow> string list" where
  "collect_args [] args = args"
| "collect_args (sy # syms) args =
     (if \<not> is_argument sy then collect_args syms args
      else
        let val = value_str sy;
            arg = (if val \<noteq> [] then sym_str sy @ ''='' @ val else sym_str sy)
        in collect_args syms (args @ [arg]))"

definition frame_args :: "FrameColorizer \<Rightarrow> string" where
  "frame_args self =
     (let block = (case frame_block (self_frame self) of
                     RuntimeError \<Rightarrow> None
                   | Returns b \<Rightarrow> Some b)
      in case nearest_function_block block of
           None \<Rightarrow> []
         | Some b \<Rightarrow> join '', '' (collect_args (block_symbols b) []))"

definition function' :: "gdb \<Rightarrow> FrameColorizer \<Rightarrow> string" where
  "function' g self =
     (case frame_function (self_frame self) of
        FuncInt func \<Rightarrow>
          let symbol = execute g (''info symbol 0x'' @ format_016x func);
              name = strip (slice_to symbol (str_find symbol ''in section'' 0));
              parts = rsplit1 name
          in if length parts = 1 then name
             else (case py_int (parts ! 1) of
                     None \<Rightarrow> name
                   | Some n \<Rightarrow> ESC # ''[1;34m'' @ parts ! 0 @ '' '' @ hex n @ ESC # ''[0m'')
      | FuncStr func \<Rightarrow> ESC # ''[1;34m'' @ func @ ESC # ''[0m'')"

definition get_screen_width :: "FrameColorizer \<Rightarrow> int" where
  "get_screen_width self = SCREEN_WIDTH"

definition line :: "FrameColorizer \<Rightarrow> string" where
  "line self =
     (case frame_line (self_frame self) of
        None \<Rightarrow> []
      | Some v \<Rightarrow> if v \<noteq> 0 then ESC # ''[0;35m:'' @ format_d v @ ESC # ''[0m'' else [])"

text \<open>
  \<open>FrameColorizer.__str__\<close>. The test compares \<open>len(parts)\<close>, the length with the
  escape sequences counted, to the screen width.
\<close>

definition str :: "gdb \<Rightarrow> FrameColorizer \<Rightarrow> error + string" where
  "str g self =
     (let is_print_address = print_address g;
          part1 = depth self;
          part2 = function' g self @ '' '' @ ESC # ''[1;37m('' @ frame_args self @ '')''
                    @ ESC # ''[0m'';
          part3 = filename self @ line self;
          part1 = (if is_print_address then part1 @ ''  '' @ address self @ '' in ''
                   else part1 @ '' '');
          parts = part1 @ part2 @ '' at '' @ part3
      in if int (length parts) > get_screen_width self then
           (case length' part1 of
              Inl e \<Rightarrow> Inl e
            | Inr n \<Rightarrow>
                let shift_width = n - 1;
                    shift_width = shift_width - 3 * (if is_print_address then 1 else 0);
                    val = part1 @ part2 @ [NL];
                    val = val @ replicate (nat shift_width) CHR '' '' @ '' at '' @ part3
                in Inr val)
         else Inr parts)"

section \<open>FilterProxy and ColourFilter\<close>

text \<open>
  The generator \<open>self.frames\<close> is the list of decorators it has not yielded yet. The
  output channel is the list of the arguments of the calls of \<open>print\<close>, each of which
  writes its argument and a line end.
\<close>

record FilterProxy =
  frames :: "FrameColorizer list"

fun enumerate_from :: "nat \<Rightarrow> Frame list \<Rightarrow> FrameColorizer list" where
  "enumerate_from ix [] = []"
| "enumerate_from ix (frame # rest) =
     \<lparr>self_frame = frame, self_depth = ix\<rparr> # enumerate_from (Suc ix) rest"

definition FilterProxy_init :: "Frame list \<Rightarrow> FilterProxy" where
  "FilterProxy_init fs = \<lparr>frames = enumerate_from 0 fs\<rparr>"

text \<open>
  Drawing every \<open>str(frame)\<close> from the generator: an exception leaves the generator
  after the frame that raised.
\<close>

fun drain :: "gdb \<Rightarrow> FrameColorizer list \<Rightarrow> (error \<times> FrameColorizer list) + string list" where
  "drain g [] = Inr []"
| "drain g (frame # rest) =
     (case str g frame of
        Inl e \<Rightarrow> Inl (e, rest)
      | Inr s \<Rightarrow> (case drain g rest of Inl x \<Rightarrow> Inl x | Inr ss \<Rightarrow> Inr (s # ss)))"

definition unroll_stack ::
  "gdb \<Rightarrow> FilterProxy \<times> string list \<Rightarrow> (error + unit) \<times> FilterProxy \<times> string list" where
  "unroll_stack g st =
     (case st of (self, out) \<Rightarrow>
        (case drain g (frames self) of
           Inl (e, rest) \<Rightarrow> (Inl e, self\<lparr>frames := rest\<rparr>, out)
         | Inr output \<Rightarrow> (Inr (), self\<lparr>frames := []\<rparr>, out @ [join [NL] output])))"

datatype signal = StopIteration | Raised error

definition next' ::
  "gdb \<Rightarrow> FilterProxy \<times> string list \<Rightarrow> signal \<times> FilterProxy \<times> string list" where
  "next' g st =
     (case unroll_stack g st of
        (Inl e, st') \<Rightarrow> (Raised e, st')
      | (Inr u, st') \<Rightarrow> (StopIteration, st'))"

definition filter' :: "Frame list \<Rightarrow> FilterProxy" where
  "filter' iters = FilterProxy_init iters"

text \<open>The text on the output channel after the given calls of \<open>print\<close>.\<close>

definition emitted :: "string list \<Rightarrow> string" where
  "emitted out = concat (map (\<lambda>s. s @ [NL]) out)"

section \<open>Coloured strings, in the specification's words\<close>

text \<open>
  Following the specification: a string composed of well-formed SGR spans, each an escape
  character, \<open>[\<close>, parameters and the closing \<open>m\<close>, around plain text. The parameters
  of a well-formed span hold no \<open>m\<close>, and plain text holds no escape character.
\<close>

datatype span = Plain string | SGR string

fun spec_render :: "span \<Rightarrow> string" where
  "spec_render (Plain t) = t"
| "spec_render (SGR params) = ESC # CHR ''['' # params @ ''m''"

fun spec_well_formed :: "span \<Rightarrow> bool" where
  "spec_well_formed (Plain t) = (ESC \<notin> set t)"
| "spec_well_formed (SGR params) = (CHR ''m'' \<notin> set params)"

fun spec_plain_length :: "span \<Rightarrow> nat" where
  "spec_plain_length (Plain t) = length t"
| "spec_plain_length (SGR params) = 0"

definition spec_render_all :: "span list \<Rightarrow> string" where
  "spec_render_all ps = concat (map spec_render ps)"

section \<open>The local variables of \_\_str\_\_\<close>

text \<open>
  The values that \<open>__str__\<close> holds in \<open>part1\<close> (after the address branch), \<open>part2\<close>,
  \<open>part3\<close> and \<open>parts\<close>, named so that theorems can speak of the assembled single-line
  string and of its pieces. Lemma \<open>str_parts\<close> below relates them to \<open>str\<close>.
\<close>

definition part1 :: "gdb \<Rightarrow> FrameColorizer \<Rightarrow> string" where
  "part1 g self =
     (if print_address g then depth self @ ''  '' @ address self @ '' in ''
      else depth self @ '' '')"

definition part2 :: "gdb \<Rightarrow> FrameColorizer \<Rightarrow> string" where
  "part2 g self =
     function' g self @ '' '' @ ESC # ''[1;37m('' @ frame_args self @ '')'' @ ESC # ''[0m''"

definition part3 :: "FrameColorizer \<Rightarrow> string" where
  "part3 self = filename self @ line self"

definition parts :: "gdb \<Rightarrow> FrameColorizer \<Rightarrow> string" where
  "parts g self = part1 g self @ part2 g self @ '' at '' @ part3 self"

section \<open>Concrete hosts and frames\<close>

text \<open>
  A host that prints the same text for every command and does not print addresses, a
  frame of a named function in \<open>a.c\<close> line 7 with no block, a frame known by its address
  only, and a frame of \<open>main\<close> whose innermost block is nested in the block of the
  function.
\<close>

definition replies :: "string \<Rightarrow> string \<Rightarrow> string" where
  "replies text command = text"

definition quiet_gdb :: "string \<Rightarrow> gdb" where
  "quiet_gdb text = \<lparr>print_address = False, execute = replies text\<rparr>"

definition named_frame :: "string \<Rightarrow> FrameColorizer" where
  "named_frame name =
     \<lparr>self_frame = \<lparr>frame_address = 0x401136, frame_function = FuncStr name,
        frame_filename = Some ''a.c'', frame_line = Some 7, frame_block = RuntimeError\<rparr>,
      self_depth = 0\<rparr>"

definition address_frame :: FrameColorizer where
  "address_frame =
     \<lparr>self_frame = \<lparr>frame_address = 0x7ffff7a42110, frame_function = FuncInt 0x7ffff7a42110,
        frame_filename = None, frame_line = None, frame_block = RuntimeError\<rparr>,
      self_depth = 1\<rparr>"

definition main_block :: block where
  "main_block =
     Block None
       (Some (Block (Some ''main'') None
          [\<lparr>sym_str = ''argc'', is_argument = True, value_str = ''1''\<rparr>,
           \<lparr>sym_str = ''argv'', is_argument = True, value_str = []\<rparr>,
           \<lparr>sym_str = ''i'', is_argument = False, value_str = ''0''\<rparr>]))
       [\<lparr>sym_str = ''x'', is_argument = False, value_str = ''2''\<rparr>]"

definition main_frame :: Frame where
  "main_frame =
     \<lparr>frame_address = 0x401136, frame_function = FuncStr ''main'',
      frame_filename = Some ''a.c'', frame_line = Some 7, frame_block = Returns main_block\<rparr>"

section \<open>Facts about the string primitives and the length loop\<close>

lemma find_sub_char_none: "find_sub [c] cs k = -1 \<longleftrightarrow> c \<notin> set cs"
  by (induction cs arbitrary: k) auto

lemma find_sub_char_append:
  "find_sub [c] (xs @ ys) k =
     (if c \<in> set xs then find_sub [c] xs k else find_sub [c] ys (k + length xs))"
  by (induction xs arbitrary: k) auto

lemma find_sub_char_first:
  "j < length cs \<Longrightarrow> cs ! j = c \<Longrightarrow>
     find_sub [c] cs k \<noteq> -1 \<and> find_sub [c] cs k \<le> int (k + j)"
proof (induction cs arbitrary: k j)
  case Nil
  then show ?case by simp
next
  case (Cons d cs)
  show ?case
  proof (cases j)
    case 0
    with Cons.prems show ?thesis by simp
  next
    case (Suc j')
    with Cons.prems have "j' < length cs" "cs ! j' = c" by simp_all
    from Cons.IH [OF this, of "Suc k"] Suc show ?thesis by simp
  qed
qed

lemma str_find_nat:
  "start \<le> length s \<Longrightarrow> str_find s sub (int start) = find_sub sub (drop start s) start"
  by (simp add: str_find_def Let_def)

lemma str_find_char_first:
  assumes "0 \<le> start" "nat start \<le> i" "i < length s" "s ! i = c"
  shows "str_find s [c] start \<noteq> -1" and "str_find s [c] start \<le> int i"
proof -
  from assms have le: "nat start \<le> length s" by simp
  from assms have eq: "str_find s [c] start = find_sub [c] (drop (nat start) s) (nat start)"
    using str_find_nat [OF le, of "[c]"] by simp
  from assms have "i - nat start < length (drop (nat start) s)"
    "drop (nat start) s ! (i - nat start) = c" by simp_all
  from find_sub_char_first [OF this, of "nat start"] eq assms(2)
  show "str_find s [c] start \<noteq> -1" and "str_find s [c] start \<le> int i" by simp_all
qed

lemma str_find_skip:
  assumes "k \<le> length pre" "c \<notin> set (drop k pre)"
  shows "str_find (pre @ rest) [c] (int k) = str_find (pre @ rest) [c] (int (length pre))"
proof -
  from assms(1) have "str_find (pre @ rest) [c] (int k) = find_sub [c] (drop k pre @ rest) k"
    by (simp add: str_find_nat)
  also from assms have "\<dots> = find_sub [c] rest (length pre)"
    by (simp add: find_sub_char_append)
  also have "\<dots> = str_find (pre @ rest) [c] (int (length pre))"
    by (simp add: str_find_nat)
  finally show ?thesis .
qed

lemma length_loop_skip:
  assumes "k \<le> length pre" "ESC \<notin> set (drop k pre)"
  shows "length_loop (pre @ rest) (int k) acc = length_loop (pre @ rest) (int (length pre)) acc"
  by (simp only: length_loop.simps [of "pre @ rest" "int k" acc]
      length_loop.simps [of "pre @ rest" "int (length pre)" acc] str_find_skip [OF assms])

lemma length_loop_end: "length_loop s (int (length s)) acc = Inr (int (length s) - acc)"
  by (simp add: length_loop.simps [of s "int (length s)" acc] str_find_nat)

lemma length_loop_span:
  assumes "CHR ''m'' \<notin> set body"
  shows "length_loop (pre @ ESC # body @ CHR ''m'' # rest) (int (length pre)) acc =
         length_loop (pre @ ESC # body @ CHR ''m'' # rest)
           (int (length (pre @ ESC # body @ ''m''))) (acc + int (length body) + 2)"
proof -
  let ?s = "pre @ ESC # body @ CHR ''m'' # rest"
  have b: "str_find ?s [ESC] (int (length pre)) = int (length pre)"
    by (simp add: str_find_nat)
  have e: "str_find ?s ''m'' (int (length pre)) = int (length pre) + 1 + int (length body)"
    using assms by (simp add: str_find_nat find_sub_char_append ESC_def)
  have "length_loop ?s (int (length pre)) acc =
        length_loop ?s (int (length pre + 1 + length body)) (acc + int (length body) + 2)"
    by (subst length_loop.simps) (simp add: b e Let_def add.commute add.left_commute)
  also have "\<dots> = length_loop ((pre @ ESC # body @ ''m'') @ rest)
      (int (length pre + 1 + length body)) (acc + int (length body) + 2)"
    by simp
  also have "\<dots> = length_loop ((pre @ ESC # body @ ''m'') @ rest)
      (int (length (pre @ ESC # body @ ''m''))) (acc + int (length body) + 2)"
    by (rule length_loop_skip) (simp_all add: ESC_def)
  finally show ?thesis by simp
qed

lemma length_loop_pieces:
  "list_all spec_well_formed ps \<Longrightarrow>
     length_loop (pre @ spec_render_all ps) (int (length pre)) acc =
       Inr (int (length pre) - acc + int (sum_list (map spec_plain_length ps)))"
proof (induction ps arbitrary: pre acc)
  case Nil
  show ?case using length_loop_end [of pre acc] by (simp add: spec_render_all_def)
next
  case (Cons p ps)
  then have wf: "spec_well_formed p" and rest: "list_all spec_well_formed ps" by simp_all
  show ?case
  proof (cases p)
    case (Plain t)
    with wf have "ESC \<notin> set (drop (length pre) (pre @ t))" by simp
    then have "length_loop ((pre @ t) @ spec_render_all ps) (int (length pre)) acc =
        length_loop ((pre @ t) @ spec_render_all ps) (int (length (pre @ t))) acc"
      by (intro length_loop_skip) simp_all
    also have "\<dots> = Inr (int (length (pre @ t)) - acc + int (sum_list (map spec_plain_length ps)))"
      by (rule Cons.IH [OF rest])
    finally show ?thesis using Plain by (simp add: spec_render_all_def)
  next
    case (SGR params)
    with wf have m: "CHR ''m'' \<notin> set (CHR ''['' # params)" by simp
    let ?pre = "pre @ ESC # (CHR ''['' # params) @ ''m''"
    have "length_loop (pre @ ESC # (CHR ''['' # params) @ CHR ''m'' # spec_render_all ps)
            (int (length pre)) acc =
          length_loop (pre @ ESC # (CHR ''['' # params) @ CHR ''m'' # spec_render_all ps)
            (int (length ?pre)) (acc + int (length (CHR ''['' # params)) + 2)"
      by (rule length_loop_span [OF m])
    also have "pre @ ESC # (CHR ''['' # params) @ CHR ''m'' # spec_render_all ps =
        ?pre @ spec_render_all ps" by simp
    also have "length_loop (?pre @ spec_render_all ps) (int (length ?pre))
          (acc + int (length (CHR ''['' # params)) + 2) =
        Inr (int (length ?pre) - (acc + int (length (CHR ''['' # params)) + 2)
          + int (sum_list (map spec_plain_length ps)))"
      by (rule Cons.IH [OF rest])
    finally show ?thesis using SGR by (simp add: spec_render_all_def)
  qed
qed

lemma length'_pieces:
  "list_all spec_well_formed ps \<Longrightarrow>
     length' (spec_render_all ps) = Inr (int (sum_list (map spec_plain_length ps)))"
  using length_loop_pieces [of ps "[]" 0] by (simp add: length'_def)



lemma length_loop_unterminated:
  "0 \<le> start \<Longrightarrow> nat start \<le> i \<Longrightarrow> i < length s \<Longrightarrow> s ! i = ESC \<Longrightarrow>
     \<forall>j. i \<le> j \<and> j < length s \<longrightarrow> s ! j \<noteq> CHR ''m'' \<Longrightarrow>
     length_loop s start acc = Inl NameError"
proof (induction s start acc rule: length_loop.induct)
  case (1 s start acc)
  let ?b = "str_find s [ESC] start"
  let ?e = "str_find s ''m'' ?b"
  from str_find_char_first [OF "1.prems"(1-4)] have b: "?b \<noteq> -1" and bi: "?b \<le> int i" .
  show ?case
  proof (cases "?e = -1")
    case True
    with b show ?thesis by (simp add: length_loop.simps [of s start acc] Let_def)
  next
    case e: False
    note st = length_loop_step [OF b e]
    have hit: "s ! nat ?e = CHR ''m''" by (rule str_find_char_hit [OF e])
    from st "1.prems"(1) have e0: "0 \<le> ?e" by simp
    have "nat ?e < i"
    proof (rule ccontr)
      assume "\<not> nat ?e < i"
      with st(3) e0 have "i \<le> nat ?e \<and> nat ?e < length s" by linarith
      with "1.prems"(5) hit show False by blast
    qed
    then have "nat ?e \<le> i" by simp
    from "1.IH" [OF refl b refl e e0 this "1.prems"(3,4,5)] b e
    show ?thesis by (simp add: length_loop.simps [of s start acc] Let_def)
  qed
qed

section \<open>Visible length\<close>

text \<open>
  C2. The specification asks that on a string with an escape character that no \<open>m\<close>
  follows, the visible length is computed without failing. The source fails on every such
  string: the branch for the missing \<open>m\<close> reads the unbound name \<open>s\<close>, so the call
  raises \<open>NameError\<close> whatever precedes the unterminated escape sequence.
\<close>

theorem length_unterminated_NameError:
  assumes "i < length s" "s ! i = ESC" "CHR ''m'' \<notin> set (drop i s)"
  shows "length' s = Inl NameError"
proof -
  have "\<forall>j. i \<le> j \<and> j < length s \<longrightarrow> s ! j \<noteq> CHR ''m''"
  proof (intro allI impI)
    fix j assume j: "i \<le> j \<and> j < length s"
    then have "drop i s ! (j - i) = s ! j" "j - i < length (drop i s)" by auto
    then have "s ! j \<in> set (drop i s)" by (metis nth_mem)
    with assms(3) show "s ! j \<noteq> CHR ''m''" by auto
  qed
  with assms(1,2) show ?thesis
    using length_loop_unterminated [of 0 i s 0] by (simp add: length'_def)
qed

theorem length_unterminated_NameError_witness:
  "0 < length (ESC # ''[1;3'') \<and> (ESC # ''[1;3'') ! 0 = ESC
     \<and> CHR ''m'' \<notin> set (drop 0 (ESC # ''[1;3''))
     \<and> length' (ESC # ''[1;3'') = Inl NameError"
  using length_unterminated_NameError [of 0 "ESC # ''[1;3''"] by (simp add: ESC_def)

text \<open>
  C7. On a string with no escape character the source's \<open>length\<close> returns the length of
  the string; on a string composed of well-formed SGR spans and plain text it returns the
  total length of the plain text.
\<close>

theorem length_visible:
  "(ESC \<notin> set s \<longrightarrow> length' s = Inr (int (length s)))
   \<and> (list_all spec_well_formed ps \<longrightarrow>
        length' (spec_render_all ps) = Inr (int (sum_list (map spec_plain_length ps))))"
proof (intro conjI impI)
  assume "ESC \<notin> set s"
  then have "list_all spec_well_formed [Plain s]" by simp
  from length'_pieces [OF this] show "length' s = Inr (int (length s))"
    by (simp add: spec_render_all_def)
next
  assume "list_all spec_well_formed ps"
  then show "length' (spec_render_all ps) = Inr (int (sum_list (map spec_plain_length ps)))"
    by (rule length'_pieces)
qed

theorem length_visible_witness:
  "ESC \<notin> set ''main'' \<and> length' ''main'' = Inr 4
   \<and> list_all spec_well_formed [SGR ''1;37'', Plain ''#0  '', SGR ''0'', SGR ''0;36'', Plain ''a.c'']
   \<and> length' (ESC # ''[1;37m#0  '' @ ESC # ''[0m'' @ ESC # ''[0;36ma.c'') = Inr 7"
  using length_visible [of "''main''"
      "[SGR ''1;37'', Plain ''#0  '', SGR ''0'', SGR ''0;36'', Plain ''a.c'']"]
  by (simp add: ESC_def spec_render_all_def)

section \<open>Rendering a frame\<close>

lemma str_parts:
  "str g self =
     (if int (length (parts g self)) > SCREEN_WIDTH then
        (case length' (part1 g self) of
           Inl e \<Rightarrow> Inl e
         | Inr n \<Rightarrow>
             Inr (part1 g self @ part2 g self @ [NL]
                  @ replicate (nat (n - 1 - 3 * (if print_address g then 1 else 0))) CHR '' ''
                  @ '' at '' @ part3 self))
      else Inr (parts g self))"
  by (simp add: str_def Let_def parts_def part1_def part2_def part3_def get_screen_width_def
      split: sum.splits)

lemma dec_digits_set: "set (dec_digits n) \<subseteq> set ''0123456789''"
proof (induction n rule: dec_digits.induct)
  case (1 n)
  have d: "\<And>k. k < 10 \<Longrightarrow> ''0123456789'' ! k \<in> set ''0123456789''"
    by (rule nth_mem) simp
  show ?case
  proof (cases "n < 10")
    case True
    with d [of n] show ?thesis by (subst dec_digits.simps) simp
  next
    case False
    have "n mod 10 < 10" by simp
    from d [OF this] "1.IH" [OF False] False show ?thesis
      by (subst dec_digits.simps) simp
  qed
qed

lemma hex_digits_set: "set (hex_digits n) \<subseteq> set ''0123456789abcdef''"
proof (induction n rule: hex_digits.induct)
  case (1 n)
  have d: "\<And>k. k < 16 \<Longrightarrow> ''0123456789abcdef'' ! k \<in> set ''0123456789abcdef''"
    by (rule nth_mem) simp
  show ?case
  proof (cases "n < 16")
    case True
    with d [of n] show ?thesis by (subst hex_digits.simps) simp
  next
    case False
    have "n mod 16 < 16" by simp
    from d [OF this] "1.IH" [OF False] False show ?thesis
      by (subst hex_digits.simps) simp
  qed
qed

lemma format_d_left3_no_ESC: "ESC \<notin> set (format_d_left3 (int n))"
  using dec_digits_set [of n] by (auto simp: format_d_left3_def format_d_def ESC_def)

lemma format_016x_no_ESC: "ESC \<notin> set (format_016x n)"
  using hex_digits_set [of n] by (auto simp: format_016x_def ESC_def)


lemma part1_spans:
  "part1 g self = spec_render_all
     (if print_address g
      then [SGR ''1;37'', Plain (CHR ''#'' # format_d_left3 (int (self_depth self))), SGR ''0'',
            Plain ''  '', SGR ''1;30'',
            Plain (''0x'' @ format_016x (frame_address (self_frame self))), SGR ''0'',
            Plain '' in '']
      else [SGR ''1;37'', Plain (CHR ''#'' # format_d_left3 (int (self_depth self))), SGR ''0'',
            Plain '' ''])"
  by (simp add: part1_def depth_def address_def spec_render_all_def)

lemma ESC_neq [simp]: "ESC \<noteq> CHR ''#''" "ESC \<noteq> CHR ''0''" "ESC \<noteq> CHR ''x''"
  "ESC \<noteq> CHR '' ''" "ESC \<noteq> CHR ''i''" "ESC \<noteq> CHR ''n''"
  by (simp_all add: ESC_def)

lemma length'_part1:
  "length' (part1 g self) =
     Inr (int (length (format_d_left3 (int (self_depth self)))) + 
          (if print_address g
           then 9 + int (length (format_016x (frame_address (self_frame self))))
           else 2))"
proof (cases "print_address g")
  case True
  let ?ps = "[SGR ''1;37'', Plain (CHR ''#'' # format_d_left3 (int (self_depth self))), SGR ''0'',
            Plain ''  '', SGR ''1;30'',
            Plain (''0x'' @ format_016x (frame_address (self_frame self))), SGR ''0'',
            Plain '' in '']"
  have "list_all spec_well_formed ?ps"
    by (simp add: format_d_left3_no_ESC format_016x_no_ESC)
  from length'_pieces [OF this] True show ?thesis by (simp add: part1_spans)
next
  case False
  let ?ps = "[SGR ''1;37'', Plain (CHR ''#'' # format_d_left3 (int (self_depth self))), SGR ''0'',
            Plain '' '']"
  have "list_all spec_well_formed ?ps"
    by (simp add: format_d_left3_no_ESC)
  from length'_pieces [OF this] False show ?thesis by (simp add: part1_spans)
qed

lemma str_total: "\<exists>s. str g self = Inr s"
  by (simp add: str_parts length'_part1)

lemma length_loop_defined:
  "s \<noteq> [] \<Longrightarrow> last s = CHR ''m'' \<Longrightarrow> 0 \<le> start \<Longrightarrow> \<exists>v. length_loop s start acc = Inr v"
proof (induction s start acc rule: length_loop.induct)
  case (1 s start acc)
  let ?b = "str_find s [ESC] start"
  let ?e = "str_find s ''m'' ?b"
  show ?case
  proof (cases "?b = -1")
    case True
    then show ?thesis by (simp add: length_loop.simps [of s start acc])
  next
    case b: False
    from str_find_char_range [OF b] "1.prems"(3)
    have b0: "0 \<le> ?b" and bl: "nat ?b \<le> length s - 1" by linarith+
    from "1.prems"(1,2) have "s ! (length s - 1) = CHR ''m''"
      by (simp add: last_conv_nth)
    with "1.prems"(1) have e: "?e \<noteq> -1"
      using str_find_char_first(1) [OF b0 bl, where s = s and c = "CHR ''m''"] by simp
    from length_loop_step [OF b e] "1.prems"(3) have "0 \<le> ?e" by simp
    from "1.IH" [OF refl b refl e "1.prems"(1,2) this] b e
    show ?thesis by (simp add: length_loop.simps [of s start acc] Let_def)
  qed
qed

lemma length'_parts_defined: "\<exists>v. length' (parts g self) = Inr v"
proof -
  have "part3 self \<noteq> [] \<and> last (part3 self) = CHR ''m''"
    by (simp add: part3_def filename_def line_def split: option.splits)
  then have "parts g self \<noteq> [] \<and> last (parts g self) = CHR ''m''"
    by (simp add: parts_def)
  then show ?thesis
    using length_loop_defined [of "parts g self" 0 0] by (simp add: length'_def)
qed


lemma quiet_gdb_print_address: "print_address (quiet_gdb t) = False"
  by (simp add: quiet_gdb_def)

lemma execute_quiet_gdb: "execute (quiet_gdb text) command = text"
  by (simp add: quiet_gdb_def replies_def)

lemma format_d_left3_0: "format_d_left3 0 = ''0  ''"
  by code_simp

lemma format_d_7: "format_d 7 = ''7''"
  by code_simp

lemma named_frame_part1: "part1 (quiet_gdb t) (named_frame name) = ESC # ''[1;37m#0  '' @ ESC # ''[0m ''"
  by (simp add: part1_def quiet_gdb_def named_frame_def depth_def format_d_left3_0)

lemma named_frame_part2:
  "part2 (quiet_gdb t) (named_frame name) =
     ESC # ''[1;34m'' @ name @ ESC # ''[0m '' @ ESC # ''[1;37m()'' @ ESC # ''[0m''"
  by (simp add: part2_def function'_def frame_args_def named_frame_def)

lemma named_frame_part3:
  "part3 (named_frame name) = ESC # ''[0;36ma.c'' @ ESC # ''[0m'' @ ESC # ''[0;35m:7'' @ ESC # ''[0m''"
  by (simp add: part3_def filename_def line_def named_frame_def format_d_7)

lemma named_frame_parts:
  "parts (quiet_gdb t) (named_frame name) =
     spec_render_all [SGR ''1;37'', Plain ''#0  '', SGR ''0'', Plain '' '',
       SGR ''1;34'', Plain name, SGR ''0'', Plain '' '', SGR ''1;37'', Plain ''()'', SGR ''0'',
       Plain '' at '', SGR ''0;36'', Plain ''a.c'', SGR ''0'', SGR ''0;35'', Plain '':7'', SGR ''0'']"
  by (simp add: parts_def named_frame_part1 named_frame_part2 named_frame_part3 spec_render_all_def)

lemma named_frame_visible:
  "ESC \<notin> set name \<Longrightarrow>
     length' (parts (quiet_gdb t) (named_frame name)) = Inr (int (length name) + 17)"
  by (simp only: named_frame_parts) (simp add: length'_pieces ESC_def)

lemma named_frame_raw:
  "length (parts (quiet_gdb t) (named_frame name)) = length name + 72"
  by (simp add: named_frame_parts spec_render_all_def)

text \<open>
  C1. The specification says that a frame whose assembled single-line string has a visible
  length within the screen width is returned as that string, unwrapped. The source tests
  \<open>len(parts)\<close>, which counts the escape sequences too, although the same method
  measures \<open>part1\<close> with \<open>self.length\<close>. For a function name of 110 characters the
  visible length is 127, the raw length is 182, and the source wraps the frame onto two
  lines.
\<close>

theorem str_wraps_visible_127:
  "length' (parts (quiet_gdb []) (named_frame (replicate 110 CHR ''x''))) = Inr 127
   \<and> 127 \<le> get_screen_width (named_frame (replicate 110 CHR ''x''))
   \<and> str (quiet_gdb []) (named_frame (replicate 110 CHR ''x'')) =
       Inr (part1 (quiet_gdb []) (named_frame (replicate 110 CHR ''x''))
            @ part2 (quiet_gdb []) (named_frame (replicate 110 CHR ''x''))
            @ [NL] @ replicate 4 CHR '' '' @ '' at ''
            @ part3 (named_frame (replicate 110 CHR ''x'')))
   \<and> str (quiet_gdb []) (named_frame (replicate 110 CHR ''x'')) \<noteq>
       Inr (parts (quiet_gdb []) (named_frame (replicate 110 CHR ''x'')))"
proof -
  let ?g = "quiet_gdb []" and ?f = "named_frame (replicate 110 CHR ''x'')"
  have v: "length' (parts ?g ?f) = Inr 127"
    by (simp add: named_frame_visible ESC_def)
  have raw: "length (parts ?g ?f) = 182"
    by (simp add: named_frame_raw)
  have p1: "length' (part1 ?g ?f) = Inr 5"
    by (simp add: length'_part1 quiet_gdb_print_address named_frame_def format_d_left3_0)
  have s: "str ?g ?f =
      Inr (part1 ?g ?f @ part2 ?g ?f @ [NL] @ replicate 4 CHR '' '' @ '' at '' @ part3 ?f)"
    by (simp add: str_parts raw p1 SCREEN_WIDTH_def quiet_gdb_print_address)
  have "length (part1 ?g ?f @ part2 ?g ?f @ [NL] @ replicate 4 CHR '' '' @ '' at '' @ part3 ?f)
      \<noteq> length (parts ?g ?f)"
    by (simp add: parts_def)
  then have "part1 ?g ?f @ part2 ?g ?f @ [NL] @ replicate 4 CHR '' '' @ '' at '' @ part3 ?f
      \<noteq> parts ?g ?f" by metis
  with v s show ?thesis by (simp add: get_screen_width_def SCREEN_WIDTH_def)
qed



section \<open>The label of a function known by its address\<close>

lemma function'_FuncInt:
  assumes "frame_function (self_frame self) = FuncInt a"
    and "execute g (''info symbol 0x'' @ format_016x a) = symbol"
  shows "function' g self =
     (let name = strip (slice_to symbol (str_find symbol ''in section'' 0));
          parts = rsplit1 name
      in if length parts = 1 then name
         else (case py_int (parts ! 1) of
                 None \<Rightarrow> name
               | Some n \<Rightarrow> ESC # ''[1;34m'' @ parts ! 0 @ '' '' @ hex n @ ESC # ''[0m''))"
  using assms by (simp add: function'_def Let_def)

lemma raise_name:
  "strip (slice_to ''raise + 272 in section .text of /usr/lib/libc.so.6''
     (str_find ''raise + 272 in section .text of /usr/lib/libc.so.6'' ''in section'' 0)) =
   ''raise + 272''"
  by code_simp

lemma raise_parts: "rsplit1 ''raise + 272'' = [''raise +'', ''272'']"
  by code_simp

lemma raise_offset: "py_int ''272'' = Some 272"
  by code_simp

lemma hex_272: "hex 272 = ''0x110''"
  by code_simp






lemma unknown_line_name:
  "strip (slice_to [CHR ''?'', CHR ''?'', NL] (str_find [CHR ''?'', CHR ''?'', NL] ''in section'' 0)) =
     ''??''"
  by code_simp

lemma unknown_line_parts: "rsplit1 ''??'' = [''??'']"
  by code_simp

text \<open>
  A lookup text that ends in a newline, as the host prints it, loses only that newline when
  the marker is missing.
\<close>

lemma function_unknown_line:
  assumes "frame_function (self_frame self) = FuncInt a"
    and "execute g (''info symbol 0x'' @ format_016x a) = ''??'' @ [NL]"
  shows "function' g self = ''??''"
  by (simp add: function'_FuncInt [OF assms] unknown_line_name unknown_line_parts)

text \<open>
  C3, as amended. For the lookup text
  \<open>raise + 272 in section .text of /usr/lib/libc.so.6\<close> the source returns the label
  \<open>raise + 0x110\<close> in the colour of function names: the text before the last space, which
  keeps the plus sign, one space, and the offset in hexadecimal. The claimed label
  \<open>raise 0x110\<close> is not what it returns.
\<close>

theorem function_raise:
  assumes "frame_function (self_frame self) = FuncInt a"
    and "execute g (''info symbol 0x'' @ format_016x a) =
           ''raise + 272 in section .text of /usr/lib/libc.so.6''"
  shows "function' g self = ESC # ''[1;34mraise + 0x110'' @ ESC # ''[0m''"
  by (simp add: function'_FuncInt [OF assms] raise_name raise_parts raise_offset hex_272)

theorem function_raise_witness:
  "frame_function (self_frame address_frame) = FuncInt 0x7ffff7a42110
   \<and> execute (quiet_gdb ''raise + 272 in section .text of /usr/lib/libc.so.6'')
         (''info symbol 0x'' @ format_016x 0x7ffff7a42110) =
       ''raise + 272 in section .text of /usr/lib/libc.so.6''
   \<and> function' (quiet_gdb ''raise + 272 in section .text of /usr/lib/libc.so.6'') address_frame =
       ESC # ''[1;34mraise + 0x110'' @ ESC # ''[0m''"
  using function_raise [of address_frame "0x7ffff7a42110"
      "quiet_gdb ''raise + 272 in section .text of /usr/lib/libc.so.6''"]
  by (simp add: execute_quiet_gdb address_frame_def)

theorem function_raise_counterexample:
  "function' (quiet_gdb ''raise + 272 in section .text of /usr/lib/libc.so.6'') address_frame \<noteq>
     ESC # ''[1;34mraise 0x110'' @ ESC # ''[0m''"
proof -
  have "frame_function (self_frame address_frame) = FuncInt 0x7ffff7a42110"
    by (simp add: address_frame_def)
  from function'_FuncInt [OF this execute_quiet_gdb]
  show ?thesis by (simp add: raise_name raise_parts raise_offset hex_272)
qed



section \<open>The arguments of a frame\<close>

lemma collect_args_map:
  "collect_args syms args =
     args @ map (\<lambda>sy. if value_str sy \<noteq> [] then sym_str sy @ ''='' @ value_str sy else sym_str sy)
              (filter is_argument syms)"
  by (induction syms arbitrary: args) (simp_all add: Let_def)

text \<open>
  C8. When \<open>Frame.block()\<close> raises \<open>RuntimeError\<close>, \<open>frame_args\<close> takes the frame to
  have no block and returns the empty argument text; nothing is raised.
\<close>

theorem frame_args_RuntimeError:
  "frame_block (self_frame self) = RuntimeError \<Longrightarrow> frame_args self = []"
  by (simp add: frame_args_def)

theorem frame_args_RuntimeError_witness:
  "frame_block (self_frame address_frame) = RuntimeError \<and> frame_args address_frame = []"
  using frame_args_RuntimeError [of address_frame] by (simp add: address_frame_def)

text \<open>
  C9. The argument text lists, in order, the symbols of the nearest block with a function
  that are arguments, joined by a comma and a space: \<open>symbol=value\<close> for a symbol whose
  printed value is not empty, and the bare \<open>symbol\<close> for one whose printed value is
  empty.
\<close>

theorem frame_args_entries:
  assumes "frame_block (self_frame self) = Returns b"
    and "nearest_function_block (Some b) = Some fb"
  shows "frame_args self =
     join '', ''
       (map (\<lambda>sy. if value_str sy \<noteq> [] then sym_str sy @ ''='' @ value_str sy else sym_str sy)
          (filter is_argument (block_symbols fb)))"
  using assms by (simp add: frame_args_def collect_args_map)

theorem frame_args_entries_witness:
  "frame_block main_frame = Returns main_block
   \<and> nearest_function_block (Some main_block) = Some (Block (Some ''main'') None
          [\<lparr>sym_str = ''argc'', is_argument = True, value_str = ''1''\<rparr>,
           \<lparr>sym_str = ''argv'', is_argument = True, value_str = []\<rparr>,
           \<lparr>sym_str = ''i'', is_argument = False, value_str = ''0''\<rparr>])
   \<and> frame_args \<lparr>self_frame = main_frame, self_depth = 0\<rparr> = ''argc=1, argv''"
  using frame_args_entries [of "\<lparr>self_frame = main_frame, self_depth = 0\<rparr>" main_block
      "Block (Some ''main'') None
          [\<lparr>sym_str = ''argc'', is_argument = True, value_str = ''1''\<rparr>,
           \<lparr>sym_str = ''argv'', is_argument = True, value_str = []\<rparr>,
           \<lparr>sym_str = ''i'', is_argument = False, value_str = ''0''\<rparr>]"]
  by (simp add: main_frame_def main_block_def)

section \<open>The iterator handed to the host\<close>

lemma drain_total: "\<exists>ss. drain g fs = Inr ss \<and> map (str g) fs = map Inr ss"
proof (induction fs)
  case Nil
  show ?case by simp
next
  case (Cons f fs)
  from str_total [of g f] obtain s where s: "str g f = Inr s" ..
  from Cons.IH obtain ss where "drain g fs = Inr ss" "map (str g) fs = map Inr ss" by blast
  with s have "drain g (f # fs) = Inr (s # ss) \<and> map (str g) (f # fs) = map Inr (s # ss)"
    by simp
  then show ?case by blast
qed

lemma next'_run:
  "\<exists>rendered. map (str g) (frames self) = map Inr rendered
     \<and> next' g (self, out) = (StopIteration, self\<lparr>frames := []\<rparr>, out @ [join [NL] rendered])"
proof -
  from drain_total [of g "frames self"] obtain ss
    where "drain g (frames self) = Inr ss" "map (str g) (frames self) = map Inr ss" by blast
  then have "map (str g) (frames self) = map Inr ss
     \<and> next' g (self, out) = (StopIteration, self\<lparr>frames := []\<rparr>, out @ [join [NL] ss])"
    by (simp add: next'_def unroll_stack_def)
  then show ?thesis by blast
qed

lemma next'_drained:
  "frames self = [] \<Longrightarrow> next' g (self, out) = (StopIteration, self, out @ [[]])"
  by (simp add: next'_def unroll_stack_def)


text \<open>
  C6, as amended. After a first call of \<open>__next__\<close> the generator is exhausted. A second
  call reads no frame and ends with \<open>StopIteration\<close>, and it does write to the output
  channel: \<open>print\<close> is called with the empty string, which emits one empty line. The
  claim that the second call emits nothing fails on a backtrace of one frame.
\<close>

theorem second_next_prints_empty_line:
  "\<exists>self1 out1. next' g (self, out) = (StopIteration, self1, out1)
     \<and> frames self1 = []
     \<and> next' g (self1, out1) = (StopIteration, self1, out1 @ [[]])
     \<and> emitted (out1 @ [[]]) = emitted out1 @ [NL]"
proof -
  from next'_run [of g self out] obtain rendered
    where 1: "next' g (self, out) = (StopIteration, self\<lparr>frames := []\<rparr>, out @ [join [NL] rendered])"
    by blast
  have 2: "frames (self\<lparr>frames := []\<rparr>) = []" by simp
  from next'_drained [OF 2]
  have 3: "next' g (self\<lparr>frames := []\<rparr>, out @ [join [NL] rendered]) =
      (StopIteration, self\<lparr>frames := []\<rparr>, (out @ [join [NL] rendered]) @ [[]])" .
  have 4: "emitted ((out @ [join [NL] rendered]) @ [[]]) = emitted (out @ [join [NL] rendered]) @ [NL]"
    by (simp add: emitted_def)
  from 1 2 3 4 show ?thesis by blast
qed

theorem second_next_counterexample:
  "emitted (snd (snd (next' (quiet_gdb []) (snd (next' (quiet_gdb []) (filter' [main_frame], []))))))
     \<noteq> emitted (snd (snd (next' (quiet_gdb []) (filter' [main_frame], []))))"
proof -
  from next'_run [of "quiet_gdb []" "filter' [main_frame]" "[]"] obtain rendered
    where 1: "next' (quiet_gdb []) (filter' [main_frame], []) =
      (StopIteration, (filter' [main_frame])\<lparr>frames := []\<rparr>, [join [NL] rendered])"
    by auto
  have "next' (quiet_gdb []) ((filter' [main_frame])\<lparr>frames := []\<rparr>, [join [NL] rendered]) =
      (StopIteration, (filter' [main_frame])\<lparr>frames := []\<rparr>, [join [NL] rendered] @ [[]])"
    by (rule next'_drained) simp
  with 1 show ?thesis by (simp add: emitted_def)
qed

end
